theory Spec2Isabelle
  imports Main "HOL-Library.Char_ord" "HOL-Library.List_Lexorder"
begin

section \<open>Python strings\<close>

text \<open>
  A Python \<open>str\<close> is a sequence of code points. The model reads a \<^typ>\<open>char\<close> as the code
  point of the same number, so a \<^typ>\<open>string\<close> is a \<open>str\<close> over U+0000..U+00FF, and the
  string methods below are the ones of \<open>str\<close> on that range. Code points above U+00FF
  (where \<open>str.lower\<close> can change the length and more characters are white space or
  line boundaries) are outside the model.
\<close>

definition LF :: char where "LF = CHR 0x0A"
definition CR :: char where "CR = CHR 0x0D"

definition whitespace :: "char list" where
  \<comment> \<open>the code points below U+0100 for which \<open>str.isspace\<close> holds\<close>
  "whitespace = [CHR 0x09, CHR 0x0A, CHR 0x0B, CHR 0x0C, CHR 0x0D, CHR 0x1C, CHR 0x1D,
     CHR 0x1E, CHR 0x1F, CHR 0x20, CHR 0x85, CHR 0xA0]"

definition line_boundaries :: "char list" where
  \<comment> \<open>the code points below U+0100 at which \<open>str.splitlines\<close> splits\<close>
  "line_boundaries = [CHR 0x0A, CHR 0x0D, CHR 0x0B, CHR 0x0C, CHR 0x1C, CHR 0x1D, CHR 0x1E,
     CHR 0x85]"

definition isspace :: "char \<Rightarrow> bool" where
  "isspace c = (c \<in> set whitespace)"

definition lstrip :: "string \<Rightarrow> string" where
  "lstrip s = dropWhile isspace s"

definition rstrip :: "string \<Rightarrow> string" where
  "rstrip s = rev (dropWhile isspace (rev s))"

definition strip :: "string \<Rightarrow> string" where
  "strip s = lstrip (rstrip s)"

definition lstrip_chars :: "string \<Rightarrow> string \<Rightarrow> string" where
  \<comment> \<open>\<open>s.lstrip(chars)\<close>\<close>
  "lstrip_chars chars s = dropWhile (\<lambda>c. c \<in> set chars) s"

definition lower_char :: "char \<Rightarrow> char" where
  "lower_char c =
     (let n = (of_char c :: nat) in
      if (65 \<le> n \<and> n \<le> 90) \<or> (192 \<le> n \<and> n \<le> 222 \<and> n \<noteq> 215)
      then char_of (n + 32) else c)"

definition lower :: "string \<Rightarrow> string" where
  "lower s = map lower_char s"

definition startswith :: "string \<Rightarrow> string \<Rightarrow> bool" where
  "startswith s p = (take (length p) s = p)"

definition endswith :: "string \<Rightarrow> string \<Rightarrow> bool" where
  "endswith s p = (length p \<le> length s \<and> drop (length s - length p) s = p)"

fun contains :: "string \<Rightarrow> string \<Rightarrow> bool" where
  \<comment> \<open>\<open>k in s\<close>\<close>
  "contains [] k = (k = [])"
| "contains (c # cs) k = (startswith (c # cs) k \<or> contains cs k)"

fun splitlines_from :: "string \<Rightarrow> string \<Rightarrow> string list" where
  \<comment> \<open>the first argument is the line read so far, reversed\<close>
  "splitlines_from acc [] = (if acc = [] then [] else [rev acc])"
| "splitlines_from acc [c] =
     (if c \<in> set line_boundaries then [rev acc] else [rev (c # acc)])"
| "splitlines_from acc (c # d # cs) =
     (if c = CR \<and> d = LF then rev acc # splitlines_from [] cs
      else if c \<in> set line_boundaries then rev acc # splitlines_from [] (d # cs)
      else splitlines_from (c # acc) (d # cs))"

definition splitlines :: "string \<Rightarrow> string list" where
  "splitlines s = splitlines_from [] s"

fun join :: "string \<Rightarrow> string list \<Rightarrow> string" where
  \<comment> \<open>\<open>sep.join(xs)\<close>\<close>
  "join sep [] = []"
| "join sep [x] = x"
| "join sep (x # y # ys) = x @ sep @ join sep (y # ys)"

fun digits :: "nat \<Rightarrow> string" where
  "digits n = (if n < 10 then [char_of (48 + n)] else digits (n div 10) @ [char_of (48 + n mod 10)])"

definition zfill :: "nat \<Rightarrow> string \<Rightarrow> string" where
  "zfill w s = replicate (w - length s) (CHR ''0'') @ s"

definition format_03d :: "int \<Rightarrow> string" where
  \<comment> \<open>\<open>f"{n:03d}"\<close>: decimal, zero-padded to a minimum width of 3, the sign counted\<close>
  "format_03d n = (if n < 0 then CHR ''-'' # zfill 2 (digits (nat (- n))) else zfill 3 (digits (nat n)))"

section \<open>The story parser (bmad/artifacts.py)\<close>

record subtask =
  id :: string
  description :: string
  details :: string
  service :: string
  files_to_modify :: "string list"
  files_to_create :: "string list"
  patterns_from :: "string list"
  acceptance_criteria :: "string list"

text \<open>The local variables of \<open>_parse_stories_from_markdown\<close> that its loop and \<open>flush\<close> share.\<close>

record parser =
  subtasks :: "subtask list"
  current_heading :: string
  current_body_lines :: "string list"
  current_ac :: "string list"
  in_ac_section :: bool

definition initial_parser :: parser where
  "initial_parser = \<lparr>subtasks = [], current_heading = [], current_body_lines = [],
     current_ac = [], in_ac_section = False\<rparr>"

definition non_story_keywords :: "string list" where
  "non_story_keywords = [''acceptance criteria'', ''tasks'', ''subtask'', ''notes'',
     ''dependencies'', ''definition of done'']"

definition flush :: "int \<Rightarrow> parser \<Rightarrow> parser" where
  "flush start_index p =
     \<lparr>subtasks =
        (if current_heading p \<noteq> [] then
           (let idx = start_index + int (length (subtasks p)) in
            subtasks p @
            [\<lparr>id = ''bmad-'' @ format_03d (idx + 1),
              description = strip (current_heading p),
              details = strip (join [LF] (current_body_lines p)),
              service = ''all'',
              files_to_modify = [],
              files_to_create = [],
              patterns_from = [],
              acceptance_criteria = current_ac p\<rparr>])
         else subtasks p),
      current_heading = [],
      current_body_lines = [],
      current_ac = [],
      in_ac_section = False\<rparr>"

definition is_story_level_heading :: "string \<Rightarrow> bool" where
  \<comment> \<open>\<open>stripped.startswith("## ") or stripped.startswith("### ")\<close>\<close>
  "is_story_level_heading stripped = (startswith stripped ''## '' \<or> startswith stripped ''### '')"

definition heading_of :: "string \<Rightarrow> string" where
  \<comment> \<open>\<open>stripped.lstrip("#").strip()\<close>\<close>
  "heading_of stripped = strip (lstrip_chars ''#'' stripped)"

definition is_non_story_heading :: "string \<Rightarrow> bool" where
  \<comment> \<open>\<open>any(kw in heading.lower() for kw in (...))\<close>\<close>
  "is_non_story_heading heading = list_ex (contains (lower heading)) non_story_keywords"

definition is_ac_bullet :: "string \<Rightarrow> bool" where
  \<comment> \<open>\<open>stripped.startswith(("- ", "* ", "- [ ] "))\<close>\<close>
  "is_ac_bullet stripped = list_ex (startswith stripped) [''- '', ''* '', ''- [ ] '']"

definition is_inline_ac :: "string \<Rightarrow> bool" where
  "is_inline_ac stripped =
     (startswith (lower stripped) ''ac:'' \<or> startswith (lower stripped) ''given '')"

definition step :: "int \<Rightarrow> parser \<Rightarrow> string \<Rightarrow> parser" where
  \<comment> \<open>the body of \<open>for line in content.splitlines()\<close>\<close>
  "step start_index p line =
     (let stripped = strip line in
      if is_story_level_heading stripped then
        (let heading = heading_of stripped in
         if is_non_story_heading heading then
           p\<lparr>in_ac_section := contains (lower heading) ''acceptance''\<rparr>
         else (flush start_index p)\<lparr>current_heading := heading\<rparr>)
      else if in_ac_section p \<and> is_ac_bullet stripped then
        (let ac_text = strip (lstrip_chars ''-*[] '' stripped) in
         if ac_text \<noteq> [] then p\<lparr>current_ac := current_ac p @ [ac_text]\<rparr> else p)
      else if is_inline_ac stripped then
        p\<lparr>current_ac := current_ac p @ [stripped]\<rparr>
      else if current_heading p \<noteq> [] then
        p\<lparr>current_body_lines := current_body_lines p @ [line]\<rparr>
      else p)"

definition parse_lines :: "int \<Rightarrow> string list \<Rightarrow> subtask list" where
  "parse_lines start_index ls = subtasks (flush start_index (foldl (step start_index) initial_parser ls))"

definition parse_stories_from_markdown :: "string \<Rightarrow> int \<Rightarrow> subtask list" where
  "parse_stories_from_markdown content start_index = parse_lines start_index (splitlines content)"

text \<open>A line that starts a new story: a level-2 or level-3 heading that is not skipped.\<close>

definition opens_story :: "string \<Rightarrow> bool" where
  "opens_story line = (is_story_level_heading (strip line) \<and> \<not> is_non_story_heading (heading_of (strip line)))"

definition is_open :: "parser \<Rightarrow> nat" where
  \<comment> \<open>1 when a story is open, that is when \<open>flush\<close> would emit a subtask\<close>
  "is_open p = (if current_heading p \<noteq> [] then 1 else 0)"

text \<open>
  The acceptance criteria of a story in the words of the specification: of the lines that
  follow the story's heading, a bullet line inside an acceptance-criteria subsection gives
  its text without the bullet and check-box markers (when the text is not empty), a line
  that starts with \<open>ac:\<close> or \<open>given \<close> (in any case) gives itself, stripped, and a skipped
  heading opens an acceptance-criteria subsection when it contains \<open>acceptance\<close> and closes
  it otherwise. The flag is the state \<open>inACSection\<close>.
\<close>

fun ac_lines_spec :: "bool \<Rightarrow> string list \<Rightarrow> string list" where
  "ac_lines_spec in_ac [] = []"
| "ac_lines_spec in_ac (line # ls) =
     (let stripped = strip line in
      if is_story_level_heading stripped then
        ac_lines_spec (contains (lower (heading_of stripped)) ''acceptance'') ls
      else if in_ac \<and> is_ac_bullet stripped then
        (let ac_text = strip (lstrip_chars ''-*[] '' stripped) in
         (if ac_text \<noteq> [] then [ac_text] else []) @ ac_lines_spec in_ac ls)
      else if is_inline_ac stripped then stripped # ac_lines_spec in_ac ls
      else ac_lines_spec in_ac ls)"

section \<open>Errors\<close>

text \<open>
  The exceptions of the program as values. \<open>ValueError\<close> and \<open>FileNotFoundError\<close> are the
  two that \<open>load_workflow\<close> raises itself; \<open>OSError\<close> stands for every failure of a file
  operation (a missing file, a directory where a file is expected or the reverse);
  \<open>TypeError\<close> and \<open>ValueError\<close> are also what \<open>dict.update\<close> raises on an argument that
  is not a mapping or a sequence of pairs; \<open>YAMLError\<close> is a failure of \<open>yaml.safe_load\<close>.
\<close>

datatype error =
    ValueError
  | TypeError
  | FileNotFoundError
  | OSError
  | YAMLError

section \<open>Paths (pathlib, POSIX flavour)\<close>

text \<open>
  A \<open>pathlib.Path\<close> is its root (\<open>""\<close> for a relative path, \<open>"/"\<close> or \<open>"//"\<close>) and its
  parts. The operator \<open>/\<close> with a string (\<^term>\<open>slash\<close>) splits the string at \<open>"/"\<close>, drops
  empty parts and \<open>"."\<close>, keeps \<open>".."\<close>, and starts over from the string's root when it has
  one, as \<open>PurePosixPath\<close> does.
\<close>

datatype path = Path string "string list"

fun split_from :: "char \<Rightarrow> string \<Rightarrow> string \<Rightarrow> string list" where
  "split_from sep acc [] = [rev acc]"
| "split_from sep acc (c # cs) =
     (if c = sep then rev acc # split_from sep [] cs else split_from sep (c # acc) cs)"

definition split :: "char \<Rightarrow> string \<Rightarrow> string list" where
  "split sep s = split_from sep [] s"

definition root_of :: "string \<Rightarrow> string" where
  "root_of s =
     (if startswith s ''//'' \<and> \<not> startswith s ''///'' then ''//''
      else if startswith s ''/'' then ''/'' else [])"

definition segments :: "string \<Rightarrow> string list" where
  "segments s = filter (\<lambda>x. x \<noteq> [] \<and> x \<noteq> ''.'') (split (CHR ''/'') s)"

fun slash :: "path \<Rightarrow> string \<Rightarrow> path" where
  "slash (Path r ps) s =
     (if root_of s \<noteq> [] then Path (root_of s) (segments s) else Path r (ps @ segments s))"

fun child :: "path \<Rightarrow> string \<Rightarrow> path" where
  "child (Path r ps) n = Path r (ps @ [n])"

fun name :: "path \<Rightarrow> string" where
  "name (Path r ps) = (if ps = [] then [] else last ps)"

fun parent :: "path \<Rightarrow> path" where
  "parent (Path r ps) = Path r (butlast ps)"

fun parts :: "path \<Rightarrow> string list" where
  "parts (Path r ps) = (if r = [] then ps else r # ps)"

fun path_str :: "path \<Rightarrow> string" where
  "path_str (Path r ps) = (if r = [] \<and> ps = [] then ''.'' else r @ join ''/'' ps)"

section \<open>The file system\<close>

text \<open>
  The state of the file system: a tree of directories and regular files, without links and
  with every permission granted. \<^term>\<open>nodes fs c\<close> is the node at the absolute path with
  the names \<open>c\<close> (the root directory is \<open>[]\<close>); a directory carries the names of its entries
  in the order in which it enumerates them, which is the order of \<open>glob\<close>; a file carries
  its text as written. \<^term>\<open>walk\<close> resolves the parts of a path one by one as the
  operating system does: each part is looked up in a directory, and \<open>".."\<close> goes to the
  parent. Reading a file in text mode translates \<open>"\r\n"\<close> and \<open>"\r"\<close> to \<open>"\n"\<close>
  (universal newlines); writing on POSIX stores the text as it is. The encoding is UTF-8
  on both sides and loses nothing on the strings of the model.
\<close>

datatype node = File string | Dir "string list"

record filesystem =
  nodes :: "string list \<rightharpoonup> node"
  cwd :: "string list"

fun is_dir_node :: "node option \<Rightarrow> bool" where
  "is_dir_node (Some (Dir es)) = True"
| "is_dir_node _ = False"

fun walk :: "filesystem \<Rightarrow> string list \<Rightarrow> string list \<Rightarrow> string list option" where
  "walk fs cur [] = Some cur"
| "walk fs cur (s # ss) =
     (if is_dir_node (nodes fs cur)
      then walk fs (if s = ''..'' then butlast cur else cur @ [s]) ss
      else None)"

fun locate :: "filesystem \<Rightarrow> path \<Rightarrow> string list option" where
  "locate fs (Path r ps) = walk fs (if r = [] then cwd fs else []) ps"

definition lookup :: "filesystem \<Rightarrow> path \<Rightarrow> node option" where
  "lookup fs p = (case locate fs p of None \<Rightarrow> None | Some c \<Rightarrow> nodes fs c)"

definition exists :: "filesystem \<Rightarrow> path \<Rightarrow> bool" where
  "exists fs p = (lookup fs p \<noteq> None)"

definition is_dir :: "filesystem \<Rightarrow> path \<Rightarrow> bool" where
  "is_dir fs p = is_dir_node (lookup fs p)"

fun universal_newlines :: "string \<Rightarrow> string" where
  "universal_newlines [] = []"
| "universal_newlines [c] = [if c = CR then LF else c]"
| "universal_newlines (c # d # cs) =
     (if c = CR \<and> d = LF then LF # universal_newlines cs
      else if c = CR then LF # universal_newlines (d # cs)
      else c # universal_newlines (d # cs))"

definition read_text :: "filesystem \<Rightarrow> path \<Rightarrow> error + string" where
  "read_text fs p =
     (case lookup fs p of
        Some (File text) \<Rightarrow> Inr (universal_newlines text)
      | _ \<Rightarrow> Inl OSError)"

definition create :: "filesystem \<Rightarrow> string list \<Rightarrow> node \<Rightarrow> filesystem" where
  "create fs c n =
     (case nodes fs (butlast c) of
        Some (Dir es) \<Rightarrow>
          fs\<lparr>nodes := (nodes fs)(butlast c \<mapsto> Dir (es @ [last c]), c \<mapsto> n)\<rparr>
      | _ \<Rightarrow> fs\<lparr>nodes := (nodes fs)(c \<mapsto> n)\<rparr>)"

definition write_text :: "filesystem \<Rightarrow> path \<Rightarrow> string \<Rightarrow> error + filesystem" where
  "write_text fs p content =
     (case locate fs p of
        None \<Rightarrow> Inl OSError
      | Some c \<Rightarrow>
          (case nodes fs c of
             Some (Dir es) \<Rightarrow> Inl OSError
           | Some (File old) \<Rightarrow> Inr (fs\<lparr>nodes := (nodes fs)(c \<mapsto> File content)\<rparr>)
           | None \<Rightarrow> Inr (create fs c (File content))))"



fun fnmatch :: "string \<Rightarrow> string \<Rightarrow> bool" where
  "fnmatch [] [] = True"
| "fnmatch [] (c # cs) = False"
| "fnmatch (p # ps) [] = (p = CHR ''*'' \<and> fnmatch ps [])"
| "fnmatch (p # ps) (c # cs) =
     (if p = CHR ''*'' then fnmatch ps (c # cs) \<or> fnmatch (p # ps) cs
      else p = c \<and> fnmatch ps cs)"

definition listing :: "filesystem \<Rightarrow> path \<Rightarrow> string list" where
  "listing fs p = (case lookup fs p of Some (Dir es) \<Rightarrow> es | _ \<Rightarrow> [])"

definition glob :: "filesystem \<Rightarrow> path \<Rightarrow> string \<Rightarrow> path list" where
  "glob fs p pattern = map (child p) (filter (fnmatch pattern) (listing fs p))"

section \<open>Artifacts (bmad/artifacts.py)\<close>

definition BMAD_ARTIFACTS_SUBDIR :: string where
  "BMAD_ARTIFACTS_SUBDIR = ''bmad''"

definition ARTIFACT_FILES :: "(string \<times> string) list" where
  "ARTIFACT_FILES =
     [(''product_brief'', ''product-brief.md''),
      (''prd'', ''prd.md''),
      (''ux_design'', ''ux-design.md''),
      (''architecture'', ''architecture.md''),
      (''epics'', ''epics.md''),
      (''stories'', ''stories.md''),
      (''sprint_plan'', ''sprint-plan.md''),
      (''readiness_report'', ''readiness-report.md'')]"

definition artifact_filename :: "string \<Rightarrow> string" where
  \<comment> \<open>\<open>ARTIFACT_FILES.get(artifact_type, f"{artifact_type}.md")\<close>\<close>
  "artifact_filename artifact_type =
     (case map_of ARTIFACT_FILES artifact_type of
        Some filename \<Rightarrow> filename
      | None \<Rightarrow> artifact_type @ ''.md'')"



definition candidates :: "path \<Rightarrow> string \<Rightarrow> path list" where
  \<comment> \<open>the paths \<open>load_artifact\<close> tries, in the order of its loop\<close>
  "candidates spec_dir artifact_type =
     (let bmad_root = slash spec_dir BMAD_ARTIFACTS_SUBDIR;
          filename = artifact_filename artifact_type
      in map (\<lambda>subdir. if subdir \<noteq> [] then slash (slash bmad_root subdir) filename
                        else slash bmad_root filename)
           [''planning'', ''stories'', ''reviews'', []])"

fun first_existing :: "filesystem \<Rightarrow> path list \<Rightarrow> error + string option" where
  "first_existing fs [] = Inr None"
| "first_existing fs (candidate # rest) =
     (if exists fs candidate
      then (case read_text fs candidate of Inl e \<Rightarrow> Inl e | Inr text \<Rightarrow> Inr (Some text))
      else first_existing fs rest)"

definition load_artifact :: "filesystem \<Rightarrow> path \<Rightarrow> string \<Rightarrow> error + string option" where
  "load_artifact fs spec_dir artifact_type = first_existing fs (candidates spec_dir artifact_type)"

record metadata =
  source :: string
  generated_at :: string
  spec_dir_str :: string

record plan =
  plan_subtasks :: "subtask list"
  plan_metadata :: metadata

definition truthy :: "string option \<Rightarrow> bool" where
  \<comment> \<open>the truth value of a \<open>str | None\<close>\<close>
  "truthy v = (case v of None \<Rightarrow> False | Some s \<Rightarrow> s \<noteq> [])"

definition source_content :: "string option \<Rightarrow> string option \<Rightarrow> string" where
  \<comment> \<open>\<open>stories_content or epics_content or ""\<close>\<close>
  "source_content stories_content epics_content =
     (if truthy stories_content then the stories_content
      else if truthy epics_content then the epics_content
      else [])"

fun story_files :: "filesystem \<Rightarrow> path list \<Rightarrow> subtask list \<times> int \<Rightarrow> error + subtask list \<times> int" where
  \<comment> \<open>\<open>for story_file in sorted(stories_dir.glob("*.md"))\<close>, on the pair of \<open>subtasks\<close> and \<open>task_index\<close>\<close>
  "story_files fs [] st = Inr st"
| "story_files fs (story_file # rest) (tasks, task_index) =
     (if name story_file \<in> set (map snd ARTIFACT_FILES) then story_files fs rest (tasks, task_index)
      else (case read_text fs story_file of
              Inl e \<Rightarrow> Inl e
            | Inr content \<Rightarrow>
                (let parsed = parse_stories_from_markdown content task_index
                 in story_files fs rest (tasks @ parsed, task_index + int (length parsed)))))"

definition stories_to_implementation_plan ::
  "filesystem \<Rightarrow> string \<Rightarrow> (plan \<Rightarrow> string) \<Rightarrow> path \<Rightarrow> error + filesystem \<times> plan" where
  "stories_to_implementation_plan fs now dumps spec_dir =
     (let bmad_root = slash spec_dir BMAD_ARTIFACTS_SUBDIR;
          stories_dir = slash bmad_root ''stories''
      in case load_artifact fs spec_dir ''stories'' of
           Inl e \<Rightarrow> Inl e
         | Inr stories_content \<Rightarrow>
        (case load_artifact fs spec_dir ''epics'' of
           Inl e \<Rightarrow> Inl e
         | Inr epics_content \<Rightarrow>
        (let src = source_content stories_content epics_content;
             st0 = (if src \<noteq> []
                    then (let tasks = parse_stories_from_markdown src 0
                          in (tasks, 0 + int (length tasks)))
                    else ([], 0))
         in case (if is_dir fs stories_dir
                  then story_files fs (sort_key parts (glob fs stories_dir ''*.md'')) st0
                  else Inr st0) of
              Inl e \<Rightarrow> Inl e
            | Inr (tasks, task_index) \<Rightarrow>
           (let plan = \<lparr>plan_subtasks = tasks,
                         plan_metadata = \<lparr>source = ''bmad'', generated_at = now,
                                           spec_dir_str = path_str spec_dir\<rparr>\<rparr>;
                plan_path = slash spec_dir ''implementation_plan.json''
            in case write_text fs plan_path (dumps plan) of
                 Inl e \<Rightarrow> Inl e
               | Inr fs' \<Rightarrow> Inr (fs', plan)))))"

text \<open>
  Example states: a specification directory \<open>/spec\<close> with nothing in it, and one whose
  stories directory holds a consolidated \<open>stories.md\<close> with two stories and \<open>extra.md\<close>
  with one.
\<close>

definition spec_root :: path where
  "spec_root = Path ''/'' [''spec'']"


definition two_sources :: filesystem where
  "two_sources =
     \<lparr>nodes = [[] \<mapsto> Dir [''spec''],
               [''spec''] \<mapsto> Dir [''bmad''],
               [''spec'', ''bmad''] \<mapsto> Dir [''stories''],
               [''spec'', ''bmad'', ''stories''] \<mapsto> Dir [''stories.md'', ''extra.md''],
               [''spec'', ''bmad'', ''stories'', ''stories.md''] \<mapsto>
                  File (''## Story One'' @ [LF] @ ''Body A'' @ [LF] @ ''## Story Two'' @ [LF] @ ''Body B'' @ [LF]),
               [''spec'', ''bmad'', ''stories'', ''extra.md''] \<mapsto>
                  File (''## Extra'' @ [LF] @ ''Body C'' @ [LF])],
      cwd = []\<rparr>"

text \<open>
  The source documents of a plan, parsed in order with a running index: each document starts
  where the one before it stopped.
\<close>

fun parse_documents :: "int \<Rightarrow> string list \<Rightarrow> subtask list" where
  "parse_documents task_index [] = []"
| "parse_documents task_index (content # rest) =
     (let parsed = parse_stories_from_markdown content task_index
      in parsed @ parse_documents (task_index + int (length parsed)) rest)"

definition extra_story_files :: "filesystem \<Rightarrow> path \<Rightarrow> path list" where
  "extra_story_files fs spec_dir =
     (let stories_dir = slash (slash spec_dir BMAD_ARTIFACTS_SUBDIR) ''stories''
      in if is_dir fs stories_dir
         then filter (\<lambda>f. name f \<notin> set (map snd ARTIFACT_FILES))
                (sort_key parts (glob fs stories_dir ''*.md''))
         else [])"

definition text_of :: "filesystem \<Rightarrow> path \<Rightarrow> string" where
  "text_of fs f = (case read_text fs f of Inr text \<Rightarrow> text | Inl e \<Rightarrow> [])"

definition numbered_from :: "int \<Rightarrow> subtask list \<Rightarrow> bool" where
  "numbered_from start ts =
     list_all (\<lambda>(k, t). id t = ''bmad-'' @ format_03d (start + int k + 1)) (enumerate 0 ts)"

text \<open>A state whose consolidated \<open>stories.md\<close> is empty while \<open>epics.md\<close> holds one epic.\<close>

definition empty_stories :: filesystem where
  "empty_stories =
     \<lparr>nodes = [[] \<mapsto> Dir [''spec''],
               [''spec''] \<mapsto> Dir [''bmad''],
               [''spec'', ''bmad''] \<mapsto> Dir [''stories''],
               [''spec'', ''bmad'', ''stories''] \<mapsto> Dir [''stories.md'', ''epics.md''],
               [''spec'', ''bmad'', ''stories'', ''stories.md''] \<mapsto> File [],
               [''spec'', ''bmad'', ''stories'', ''epics.md''] \<mapsto>
                  File (''## Epic One'' @ [LF] @ ''Body'' @ [LF])],
      cwd = []\<rparr>"


section \<open>Workflows (bmad/config.py, bmad/workflows.py)\<close>

text \<open>
  The values a loaded workflow holds: what \<open>yaml.safe_load\<close> builds (\<open>None\<close>, booleans,
  integers, strings, lists and mappings; \<open>PScalar\<close> is any other scalar, a float or a date,
  of which only the truth value matters here), and paths. Byte strings and sets, which YAML
  gives only for explicit tags, are left out. A \<open>dict\<close> is a map from values to values; the
  keys this module looks up are strings.
\<close>

datatype pyval =
    PNone
  | PBool bool
  | PInt int
  | PScalar bool
  | PStr string
  | PPath path
  | PList "pyval list"
  | PDict "(pyval \<times> pyval) list"

type_synonym dict = "pyval \<rightharpoonup> pyval"

fun py_truthy :: "pyval \<Rightarrow> bool" where
  "py_truthy PNone = False"
| "py_truthy (PBool b) = b"
| "py_truthy (PInt n) = (n \<noteq> 0)"
| "py_truthy (PScalar b) = b"
| "py_truthy (PStr s) = (s \<noteq> [])"
| "py_truthy (PPath p) = True"
| "py_truthy (PList xs) = (xs \<noteq> [])"
| "py_truthy (PDict kvs) = (kvs \<noteq> [])"

fun hashable :: "pyval \<Rightarrow> bool" where
  "hashable (PList xs) = False"
| "hashable (PDict kvs) = False"
| "hashable v = True"

fun update_pair :: "pyval \<Rightarrow> error + pyval \<times> pyval" where
  \<comment> \<open>an element of the sequence given to \<open>dict.update\<close>, read as a key and a value\<close>
  "update_pair (PList [k, v]) = (if hashable k then Inr (k, v) else Inl TypeError)"
| "update_pair (PList xs) = Inl ValueError"
| "update_pair (PStr [a, b]) = Inr (PStr [a], PStr [b])"
| "update_pair (PStr s) = Inl ValueError"
| "update_pair (PDict [(k1, v1), (k2, v2)]) = Inr (k1, k2)"
| "update_pair (PDict kvs) = Inl ValueError"
| "update_pair v = Inl TypeError"

fun update_pairs :: "dict \<Rightarrow> pyval list \<Rightarrow> error + dict" where
  "update_pairs d [] = Inr d"
| "update_pairs d (x # xs) =
     (case update_pair x of
        Inl e \<Rightarrow> Inl e
      | Inr (k, v) \<Rightarrow> update_pairs (d(k \<mapsto> v)) xs)"

fun update_items :: "dict \<Rightarrow> (pyval \<times> pyval) list \<Rightarrow> dict" where
  "update_items d [] = d"
| "update_items d ((k, v) # kvs) = update_items (d(k \<mapsto> v)) kvs"

fun dict_update :: "dict \<Rightarrow> pyval \<Rightarrow> error + dict" where
  \<comment> \<open>\<open>d.update(v)\<close>\<close>
  "dict_update d (PDict kvs) = Inr (update_items d kvs)"
| "dict_update d (PList xs) = update_pairs d xs"
| "dict_update d (PStr s) = (if s = [] then Inr d else Inl ValueError)"
| "dict_update d v = Inl TypeError"

definition BMAD_WORKFLOWS_DIR :: "path \<Rightarrow> path" where
  \<comment> \<open>the argument is \<open>_BMAD_PKG_DIR\<close>, the directory of the installed package\<close>
  "BMAD_WORKFLOWS_DIR pkg_dir = slash (slash pkg_dir ''source'') ''workflows''"

definition PHASE_WORKFLOW_MAP :: "(string \<times> string \<times> string) list" where
  "PHASE_WORKFLOW_MAP =
     [(''product_brief'', ''1-analysis'', ''create-product-brief''),
      (''research'', ''1-analysis'', ''research''),
      (''prd'', ''2-planning'', ''create-prd''),
      (''ux_design'', ''2-planning'', ''create-ux-design''),
      (''architecture'', ''3-solutioning'', ''create-architecture''),
      (''epics_stories'', ''3-solutioning'', ''create-epics-and-stories''),
      (''implementation_readiness'', ''3-solutioning'', ''check-implementation-readiness''),
      (''sprint_planning'', ''4-implementation'', ''sprint-planning''),
      (''create_story'', ''4-implementation'', ''create-story''),
      (''dev_story'', ''4-implementation'', ''dev-story''),
      (''code_review'', ''4-implementation'', ''code-review''),
      (''quick_spec'', ''quick-flow'', ''quick-spec''),
      (''quick_dev'', ''quick-flow'', ''quick-dev'')]"

text \<open>
  \<open>Path.is_dir()\<close> answers \<open>False\<close> when \<open>stat\<close> cannot find the path (its errors ENOENT,
  ENOTDIR, EBADF and ELOOP) and lets every other \<open>OSError\<close> of \<open>stat\<close> through. With every
  permission granted that other error is ENAMETOOLONG: the path as a whole has \<open>PATH_MAX\<close>
  bytes or more, or the walk reaches, in an existing directory, a name of more than
  \<open>NAME_MAX\<close> bytes (4096 and 255 on Linux). In UTF-8 a code point below U+0080 is one
  byte and one below U+0100 two.
\<close>

definition NAME_MAX :: nat where "NAME_MAX = 255"
definition PATH_MAX :: nat where "PATH_MAX = 4096"

definition utf8_length :: "string \<Rightarrow> nat" where
  "utf8_length s = sum_list (map (\<lambda>c. if (of_char c :: nat) < 128 then 1 else 2) s)"

fun name_too_long :: "filesystem \<Rightarrow> string list \<Rightarrow> string list \<Rightarrow> bool" where
  \<comment> \<open>the walk of the parts, as \<^const>\<open>walk\<close> goes, meets a name that is too long\<close>
  "name_too_long fs cur [] = False"
| "name_too_long fs cur (s # ss) =
     (if is_dir_node (nodes fs cur)
      then NAME_MAX < utf8_length s \<or>
           name_too_long fs (if s = ''..'' then butlast cur else cur @ [s]) ss
      else False)"

fun stat_fails :: "filesystem \<Rightarrow> path \<Rightarrow> bool" where
  \<comment> \<open>\<open>stat\<close> raises an \<open>OSError\<close> that \<open>Path.is_dir()\<close> does not catch\<close>
  "stat_fails fs (Path r ps) =
     (PATH_MAX \<le> utf8_length (path_str (Path r ps)) \<or>
      name_too_long fs (if r = [] then cwd fs else []) ps)"

definition path_is_dir :: "filesystem \<Rightarrow> path \<Rightarrow> error + bool" where
  \<comment> \<open>\<open>p.is_dir()\<close> with the error it can raise\<close>
  "path_is_dir fs p = (if stat_fails fs p then Inl OSError else Inr (is_dir fs p))"

definition workflow_directory ::
  "filesystem \<Rightarrow> path \<Rightarrow> string \<Rightarrow> string option \<Rightarrow> path option \<Rightarrow> error + path" where
  \<comment> \<open>the first part of \<open>load_workflow\<close>, up to the check of the directory\<close>
  "workflow_directory fs pkg_dir phase workflow_name workflows_dir =
     (let base = (case workflows_dir of Some d \<Rightarrow> d | None \<Rightarrow> BMAD_WORKFLOWS_DIR pkg_dir);
          (phase_dir, workflow_name) =
            (if workflow_name = None \<and> map_of PHASE_WORKFLOW_MAP phase \<noteq> None
             then (fst (the (map_of PHASE_WORKFLOW_MAP phase)),
                   Some (snd (the (map_of PHASE_WORKFLOW_MAP phase))))
             else (phase, workflow_name))
      in case workflow_name of
           None \<Rightarrow> Inl ValueError
         | Some wname \<Rightarrow>
             (let workflow_dir = slash (slash base phase_dir) wname
              in case path_is_dir fs workflow_dir of
                   Inl e \<Rightarrow> Inl e
                 | Inr found \<Rightarrow>
                     if \<not> found then Inl FileNotFoundError else Inr workflow_dir))"

definition ref_filename :: "string \<Rightarrow> string" where
  \<comment> \<open>\<open>ref.rsplit("/", 1)[-1]\<close> if \<open>"/" in ref\<close>, else \<open>ref\<close>\<close>
  "ref_filename ref = (if CHR ''/'' \<in> set ref then last (split (CHR ''/'') ref) else ref)"

fun explicit_ref :: "filesystem \<Rightarrow> path \<Rightarrow> dict \<Rightarrow> string list \<Rightarrow> path option" where
  \<comment> \<open>the first loop of \<open>_resolve_ref\<close>: the keys of the loaded data\<close>
  "explicit_ref fs workflow_dir data [] = None"
| "explicit_ref fs workflow_dir data (key # keys) =
     (case data (PStr key) of
        Some (PStr ref) \<Rightarrow>
          (if ref \<noteq> [] \<and> exists fs (slash workflow_dir (ref_filename ref))
           then Some (slash workflow_dir (ref_filename ref))
           else explicit_ref fs workflow_dir data keys)
      | _ \<Rightarrow> explicit_ref fs workflow_dir data keys)"

definition convention_names :: "(string \<times> string list) list" where
  "convention_names =
     [(''instructions'', [''instructions.xml'', ''instructions.md'']),
      (''validation'', [''checklist.md'', ''validation.md'']),
      (''checklist'', [''checklist.md'']),
      (''template'', [''template.md''])]"

fun first_name :: "filesystem \<Rightarrow> path \<Rightarrow> string list \<Rightarrow> path option" where
  "first_name fs workflow_dir [] = None"
| "first_name fs workflow_dir (n # ns) =
     (if exists fs (slash workflow_dir n) then Some (slash workflow_dir n)
      else first_name fs workflow_dir ns)"

definition convention_ref :: "filesystem \<Rightarrow> path \<Rightarrow> string list \<Rightarrow> path option" where
  \<comment> \<open>the second loop: for each key in turn, each of its convention names in turn\<close>
  "convention_ref fs workflow_dir keys =
     first_name fs workflow_dir
       (concat (map (\<lambda>key. case map_of convention_names key of None \<Rightarrow> [] | Some ns \<Rightarrow> ns) keys))"

definition glob_patterns :: "string list \<Rightarrow> string list" where
  \<comment> \<open>\<open>f"*{key}*{ext}"\<close> for each key in turn and each of \<open>".md"\<close>, \<open>".xml"\<close> in turn\<close>
  "glob_patterns keys =
     concat (map (\<lambda>key. map (\<lambda>ext. ''*'' @ key @ ''*'' @ ext) [''.md'', ''.xml'']) keys)"

fun glob_ref :: "filesystem \<Rightarrow> path \<Rightarrow> string list \<Rightarrow> path option" where
  \<comment> \<open>the third loop: the first match of the first pattern that matches anything\<close>
  "glob_ref fs workflow_dir [] = None"
| "glob_ref fs workflow_dir (pattern # patterns) =
     (case glob fs workflow_dir pattern of
        [] \<Rightarrow> glob_ref fs workflow_dir patterns
      | m # matches \<Rightarrow> Some m)"

definition resolve_ref :: "filesystem \<Rightarrow> path \<Rightarrow> dict \<Rightarrow> string list \<Rightarrow> path option" where
  "resolve_ref fs workflow_dir data keys =
     (case explicit_ref fs workflow_dir data keys of
        Some p \<Rightarrow> Some p
      | None \<Rightarrow>
          (case convention_ref fs workflow_dir keys of
             Some p \<Rightarrow> Some p
           | None \<Rightarrow> glob_ref fs workflow_dir (glob_patterns keys)))"

definition path_or_none :: "path option \<Rightarrow> pyval" where
  "path_or_none r = (case r of None \<Rightarrow> PNone | Some p \<Rightarrow> PPath p)"

definition load_definition ::
  "filesystem \<Rightarrow> (string \<Rightarrow> error + pyval) \<Rightarrow> path \<Rightarrow> error + dict" where
  \<comment> \<open>the middle part of \<open>load_workflow\<close>: \<open>workflow.yaml\<close>, else \<open>workflow.md\<close>, else neither\<close>
  "load_definition fs safe_load workflow_dir =
     (let result = [PStr ''workflow_dir'' \<mapsto> PPath workflow_dir];
          yaml_file = slash workflow_dir ''workflow.yaml'';
          md_file = slash workflow_dir ''workflow.md''
      in if exists fs yaml_file then
           (case read_text fs yaml_file of
              Inl e \<Rightarrow> Inl e
            | Inr raw \<Rightarrow>
                (case safe_load raw of
                   Inl e \<Rightarrow> Inl e
                 | Inr v \<Rightarrow> dict_update result (if py_truthy v then v else PDict [])))
         else if exists fs md_file then
           (case read_text fs md_file of
              Inl e \<Rightarrow> Inl e
            | Inr text \<Rightarrow> Inr (result(PStr ''workflow_content'' \<mapsto> PStr text)))
         else Inr result)"

definition load_workflow ::
  "filesystem \<Rightarrow> (string \<Rightarrow> error + pyval) \<Rightarrow> path \<Rightarrow> string \<Rightarrow> string option \<Rightarrow> path option \<Rightarrow>
   error + dict" where
  "load_workflow fs safe_load pkg_dir phase workflow_name workflows_dir =
     (case workflow_directory fs pkg_dir phase workflow_name workflows_dir of
        Inl e \<Rightarrow> Inl e
      | Inr workflow_dir \<Rightarrow>
          (case load_definition fs safe_load workflow_dir of
             Inl e \<Rightarrow> Inl e
           | Inr result \<Rightarrow>
               (let result1 = result(PStr ''instructions_path'' \<mapsto>
                      path_or_none (resolve_ref fs workflow_dir result [''instructions'']));
                    result2 = result1(PStr ''checklist_path'' \<mapsto>
                      path_or_none (resolve_ref fs workflow_dir result1 [''validation'', ''checklist'']));
                    result3 = result2(PStr ''template_path'' \<mapsto>
                      path_or_none (resolve_ref fs workflow_dir result2 [''template'']))
                in Inr result3)))"

text \<open>
  Example states: a workflows root \<open>/wf\<close> with the workflow directory
  \<open>/wf/1-analysis/research\<close>, whose entries differ.
\<close>

definition research_dir :: path where
  "research_dir = Path ''/'' [''wf'', ''1-analysis'', ''research'']"

definition workflow_tree :: "(string \<times> string) list \<Rightarrow> filesystem" where
  \<comment> \<open>the entries of the workflow directory, in its order, with their texts\<close>
  "workflow_tree files =
     \<lparr>nodes = (\<lambda>c. if c = [] then Some (Dir [''wf''])
                    else if c = [''wf''] then Some (Dir [''1-analysis''])
                    else if c = [''wf'', ''1-analysis''] then Some (Dir [''research''])
                    else if c = [''wf'', ''1-analysis'', ''research''] then Some (Dir (map fst files))
                    else if butlast c = [''wf'', ''1-analysis'', ''research'']
                    then map_option File (map_of files (last c))
                    else None),
      cwd = []\<rparr>"




text \<open>
  A workflow directory with a \<open>workflow.yaml\<close> and one instructions file, and a YAML
  loader that reads the definition as a mapping with the keys \<open>workflow_dir\<close> and
  \<open>instructions_path\<close>.
\<close>

definition yaml_workflow :: filesystem where
  "yaml_workflow = workflow_tree [(''workflow.yaml'', ''name: research''), (''b-instructions.md'', ''text'')]"

definition parsed_yaml :: "string \<Rightarrow> error + pyval" where
  "parsed_yaml raw =
     Inr (PDict [(PStr ''workflow_dir'', PStr ''elsewhere''),
                 (PStr ''instructions_path'', PStr ''mine'')])"

section \<open>Properties of the story parser\<close>

lemma flush_shift:
  "flush start (p\<lparr>subtasks := S @ subtasks p\<rparr>) =
   (flush (start + int (length S)) p)\<lparr>subtasks := S @ subtasks (flush (start + int (length S)) p)\<rparr>"
  by (simp add: flush_def Let_def add.assoc)

lemma step_shift:
  "step start (p\<lparr>subtasks := S @ subtasks p\<rparr>) line =
   (step (start + int (length S)) p line)\<lparr>subtasks := S @ subtasks (step (start + int (length S)) p line)\<rparr>"
  by (simp add: step_def Let_def flush_shift)

lemma foldl_step_shift:
  "foldl (step start) (p\<lparr>subtasks := S @ subtasks p\<rparr>) ls =
   (foldl (step (start + int (length S))) p ls)
     \<lparr>subtasks := S @ subtasks (foldl (step (start + int (length S))) p ls)\<rparr>"
proof (induction ls arbitrary: p)
  case Nil
  show ?case by simp
next
  case (Cons l ls)
  show ?case
    by (simp only: foldl_Cons step_shift Cons.IH)
qed

lemma strip_last_nonspace: "strip s \<noteq> [] \<Longrightarrow> \<not> isspace (last (strip s))"
proof -
  assume ne: "strip s \<noteq> []"
  let ?r = "rstrip s"
  have r: "?r \<noteq> []" using ne by (auto simp: strip_def lstrip_def)
  then have d: "dropWhile isspace (rev s) \<noteq> []" by (simp add: rstrip_def)
  have "\<not> isspace (hd (dropWhile isspace (rev s)))" using d by (rule hd_dropWhile)
  then have lr: "\<not> isspace (last ?r)" using d by (simp add: rstrip_def last_rev)
  have "strip s = dropWhile isspace ?r" by (simp add: strip_def lstrip_def)
  moreover have "last (dropWhile isspace ?r) = last ?r"
    using ne by (metis calculation last_appendR takeWhile_dropWhile_id)
  ultimately show ?thesis using lr by simp
qed

lemma strip_nonempty: "\<exists>c\<in>set s. \<not> isspace c \<Longrightarrow> strip s \<noteq> []"
proof -
  assume "\<exists>c\<in>set s. \<not> isspace c"
  then have "\<exists>c\<in>set (rev s). \<not> isspace c" by simp
  then have "dropWhile isspace (rev s) \<noteq> []" by (simp add: dropWhile_eq_Nil_conv)
  then have d: "rstrip s \<noteq> []" by (simp add: rstrip_def)
  have "\<not> isspace (hd (dropWhile isspace (rev s)))"
    using \<open>dropWhile isspace (rev s) \<noteq> []\<close> by (rule hd_dropWhile)
  then have "\<not> isspace (last (rstrip s))"
    using \<open>dropWhile isspace (rev s) \<noteq> []\<close> by (simp add: rstrip_def last_rev)
  then have "\<exists>c\<in>set (rstrip s). \<not> isspace c" using d last_in_set by blast
  then show ?thesis by (simp add: strip_def lstrip_def dropWhile_eq_Nil_conv)
qed

lemma startswithD: "startswith s p \<Longrightarrow> \<exists>r. s = p @ r"
  by (metis append_take_drop_id startswith_def)

lemma heading_nonempty:
  assumes "is_story_level_heading (strip line)"
  shows "heading_of (strip line) \<noteq> []"
proof -
  let ?s = "strip line"
  from assms obtain r where r: "?s = ''## '' @ r \<or> ?s = ''### '' @ r"
    unfolding is_story_level_heading_def using startswithD by blast
  then have ne: "?s \<noteq> []" by auto
  then have lst: "\<not> isspace (last ?s)" by (rule strip_last_nonspace)
  have sp: "isspace (CHR '' '')" by (simp add: isspace_def whitespace_def)
  have l: "lstrip_chars ''#'' ?s = CHR '' '' # r"
    using r by (auto simp: lstrip_chars_def)
  have "r \<noteq> []" using r lst sp by auto
  then have "last (CHR '' '' # r) = last ?s" using r by auto
  then have "\<not> isspace (last (CHR '' '' # r))" using lst by simp
  then have "\<exists>c\<in>set (CHR '' '' # r). \<not> isspace c" by (metis last_in_set list.distinct(1))
  then have "strip (CHR '' '' # r) \<noteq> []" by (rule strip_nonempty)
  then show ?thesis by (simp add: heading_of_def l)
qed

lemma step_count:
  "length (subtasks (step start p line)) + is_open (step start p line) =
   length (subtasks p) + is_open p + (if opens_story line then 1 else 0)"
proof (cases "opens_story line")
  case True
  then have "heading_of (strip line) \<noteq> []" by (simp add: opens_story_def heading_nonempty)
  with True show ?thesis
    by (simp add: step_def Let_def opens_story_def flush_def is_open_def)
next
  case False
  then show ?thesis
    by (auto simp: step_def Let_def opens_story_def is_open_def)
qed

lemma foldl_step_count:
  "length (subtasks (foldl (step start) p ls)) + is_open (foldl (step start) p ls) =
   length (subtasks p) + is_open p + length (filter opens_story ls)"
proof (induction ls arbitrary: p)
  case Nil
  show ?case by simp
next
  case (Cons l ls)
  show ?case using step_count [of start p l] by (simp add: Cons.IH)
qed

lemma length_parse_lines: "length (parse_lines start ls) = length (filter opens_story ls)"
proof -
  have "length (subtasks (flush start q)) = length (subtasks q) + is_open q" for q
    by (simp add: flush_def is_open_def Let_def)
  then show ?thesis
    using foldl_step_count [of start initial_parser ls]
    by (simp add: parse_lines_def) (simp add: initial_parser_def is_open_def)
qed

lemma flush_reset:
  "flush start p = initial_parser\<lparr>subtasks := subtasks (flush start p)\<rparr>"
  by (simp add: flush_def initial_parser_def)

lemma parse_lines_split:
  assumes "opens_story h"
  shows "parse_lines start (xs @ h # ys) =
         parse_lines start xs @ parse_lines (start + int (length (parse_lines start xs))) (h # ys)"
proof -
  let ?q = "foldl (step start) initial_parser xs"
  let ?T = "parse_lines start xs"
  let ?s' = "start + int (length ?T)"
  let ?r = "step ?s' initial_parser h"
  have T: "subtasks (flush start ?q) = ?T" by (simp add: parse_lines_def)
  have "step start ?q h = (flush start ?q)\<lparr>current_heading := heading_of (strip h)\<rparr>"
    using assms by (simp add: step_def opens_story_def Let_def)
  also have "\<dots> = initial_parser\<lparr>subtasks := ?T, current_heading := heading_of (strip h)\<rparr>"
    using flush_reset [of start ?q] T by simp
  finally have q: "step start ?q h = initial_parser\<lparr>subtasks := ?T, current_heading := heading_of (strip h)\<rparr>" .
  have "?r = initial_parser\<lparr>current_heading := heading_of (strip h)\<rparr>"
    using assms by (simp add: step_def opens_story_def Let_def flush_def initial_parser_def)
  then have "step start ?q h = ?r\<lparr>subtasks := ?T @ subtasks ?r\<rparr>"
    using q by (simp add: initial_parser_def)
  then have "foldl (step start) initial_parser (xs @ h # ys) =
             foldl (step start) (?r\<lparr>subtasks := ?T @ subtasks ?r\<rparr>) ys"
    by simp
  also have "\<dots> = (foldl (step ?s') ?r ys)\<lparr>subtasks := ?T @ subtasks (foldl (step ?s') ?r ys)\<rparr>"
    by (rule foldl_step_shift)
  finally have "flush start (foldl (step start) initial_parser (xs @ h # ys)) =
      (flush ?s' (foldl (step ?s') ?r ys))\<lparr>subtasks := ?T @ subtasks (flush ?s' (foldl (step ?s') ?r ys))\<rparr>"
    by (simp only: flush_shift)
  then show ?thesis by (simp add: parse_lines_def)
qed

lemma step_segment:
  assumes "\<not> opens_story l"
  shows "subtasks (step start p l) = subtasks p"
    and "current_heading (step start p l) = current_heading p"
    and "current_ac (step start p l) @ ac_lines_spec (in_ac_section (step start p l)) ls =
         current_ac p @ ac_lines_spec (in_ac_section p) (l # ls)"
proof -
  show "subtasks (step start p l) = subtasks p"
    using assms by (simp add: step_def Let_def opens_story_def)
  show "current_heading (step start p l) = current_heading p"
    using assms by (simp add: step_def Let_def opens_story_def)
  show "current_ac (step start p l) @ ac_lines_spec (in_ac_section (step start p l)) ls =
         current_ac p @ ac_lines_spec (in_ac_section p) (l # ls)"
  proof (cases "is_story_level_heading (strip l)")
    case True
    with assms show ?thesis by (simp add: step_def Let_def opens_story_def)
  next
    case False
    then show ?thesis by (simp add: step_def Let_def)
  qed
qed

lemma foldl_step_segment:
  assumes "\<forall>l\<in>set seg. \<not> opens_story l"
  shows "subtasks (foldl (step start) p seg) = subtasks p \<and>
         current_heading (foldl (step start) p seg) = current_heading p \<and>
         current_ac (foldl (step start) p seg) = current_ac p @ ac_lines_spec (in_ac_section p) seg"
  using assms
proof (induction seg arbitrary: p)
  case Nil
  show ?case by simp
next
  case (Cons l ls)
  from Cons.prems have nl: "\<not> opens_story l" and rest: "\<forall>l\<in>set ls. \<not> opens_story l" by simp_all
  show ?case
    using Cons.IH [OF rest, of "step start p l"] step_segment [OF nl, of start p]
    by (simp del: ac_lines_spec.simps)
qed

text \<open>
  Claim C5. Parsing the scenario-B document from start index 0 gives exactly one subtask:
  its acceptance criteria are \<open>["given X", "then Y"]\<close> and its details are \<open>"Intro"\<close>, so
  the two bullet lines of the acceptance-criteria subsection are not part of the body.
\<close>

theorem scenario_B_ac_subsection:
  "parse_stories_from_markdown
     (''## Story'' @ [LF] @ ''Intro'' @ [LF] @ ''### Acceptance Criteria'' @ [LF] @
      ''- given X'' @ [LF] @ ''- then Y'' @ [LF]) 0 =
   [\<lparr>id = ''bmad-001'', description = ''Story'', details = ''Intro'', service = ''all'',
     files_to_modify = [], files_to_create = [], patterns_from = [],
     acceptance_criteria = [''given X'', ''then Y'']\<rparr>]"
  by code_simp

theorem scenario_B_ac_subsection_witness:
  "map acceptance_criteria (parse_stories_from_markdown
     (''## Story'' @ [LF] @ ''Intro'' @ [LF] @ ''### Acceptance Criteria'' @ [LF] @
      ''- given X'' @ [LF] @ ''- then Y'' @ [LF]) 0) = [[''given X'', ''then Y'']] \<and>
   map details (parse_stories_from_markdown
     (''## Story'' @ [LF] @ ''Intro'' @ [LF] @ ''### Acceptance Criteria'' @ [LF] @
      ''- given X'' @ [LF] @ ''- then Y'' @ [LF]) 0) = [''Intro'']"
  using scenario_B_ac_subsection by simp

text \<open>
  Claim C6. On a level-2 or level-3 heading line whose heading, lower-cased, contains one of
  the non-story keywords, the loop body changes nothing but \<open>in_ac_section\<close>: the list of
  subtasks, the open heading, its body lines and its acceptance criteria stay as they are
  (no flush, no new story), and the flag becomes true exactly when the lower-cased heading
  contains \<open>"acceptance"\<close>. The document \<open>"### Notes\nsome text"\<close> gives no subtask.
\<close>

theorem non_story_heading_keeps_story:
  "(is_story_level_heading (strip line) \<and> is_non_story_heading (heading_of (strip line)) \<longrightarrow>
      step start_index p line =
        p\<lparr>in_ac_section := contains (lower (heading_of (strip line))) ''acceptance''\<rparr>) \<and>
   parse_stories_from_markdown (''### Notes'' @ [LF] @ ''some text'') 0 = []"
proof
  show "is_story_level_heading (strip line) \<and> is_non_story_heading (heading_of (strip line)) \<longrightarrow>
      step start_index p line =
        p\<lparr>in_ac_section := contains (lower (heading_of (strip line))) ''acceptance''\<rparr>"
    by (simp add: step_def Let_def)
  show "parse_stories_from_markdown (''### Notes'' @ [LF] @ ''some text'') 0 = []"
    by code_simp
qed

theorem non_story_heading_keeps_story_witness:
  "step 0 (initial_parser\<lparr>current_heading := ''Story'', current_body_lines := [''Intro'']\<rparr>)
     ''### Acceptance Criteria'' =
   initial_parser\<lparr>current_heading := ''Story'', current_body_lines := [''Intro''],
     in_ac_section := True\<rparr> \<and>
   step 0 (initial_parser\<lparr>current_heading := ''Story'', in_ac_section := True\<rparr>) ''## Release NOTES'' =
   initial_parser\<lparr>current_heading := ''Story'', in_ac_section := False\<rparr>"
proof -
  have a: "is_story_level_heading (strip ''### Acceptance Criteria'') \<and>
           is_non_story_heading (heading_of (strip ''### Acceptance Criteria''))"
    by code_simp
  have a': "contains (lower (heading_of (strip ''### Acceptance Criteria''))) ''acceptance''"
    by code_simp
  have b: "is_story_level_heading (strip ''## Release NOTES'') \<and>
           is_non_story_heading (heading_of (strip ''## Release NOTES''))"
    by code_simp
  have b': "\<not> contains (lower (heading_of (strip ''## Release NOTES''))) ''acceptance''"
    by code_simp
  show ?thesis
    using non_story_heading_keeps_story [THEN conjunct1, rule_format, OF a, of 0
        "initial_parser\<lparr>current_heading := ''Story'', current_body_lines := [''Intro'']\<rparr>"]
      non_story_heading_keeps_story [THEN conjunct1, rule_format, OF b, of 0
        "initial_parser\<lparr>current_heading := ''Story'', in_ac_section := True\<rparr>"]
      a' b'
    by (simp add: initial_parser_def)
qed

text \<open>
  Claim C8. \<^const>\<open>parse_stories_from_markdown\<close> is a total function to lists of subtasks:
  its loop is a fold over the finitely many lines of the content and no branch of the source
  raises, so the model has no error value. For every content and start index the result has
  one subtask for each line that opens a story, hence no more subtasks than lines, and a
  document without a level-2 or level-3 heading line gives none.
\<close>

theorem parser_best_effort:
  "length (parse_stories_from_markdown content start_index) =
     length (filter opens_story (splitlines content)) \<and>
   length (parse_stories_from_markdown content start_index) \<le> length (splitlines content) \<and>
   ((\<forall>line\<in>set (splitlines content). \<not> is_story_level_heading (strip line)) \<longrightarrow>
      parse_stories_from_markdown content start_index = [])"
proof -
  let ?ls = "splitlines content"
  have n: "length (parse_lines start_index ?ls) = length (filter opens_story ?ls)"
    by (rule length_parse_lines)
  have "filter opens_story ?ls = []" if "\<forall>line\<in>set ?ls. \<not> is_story_level_heading (strip line)"
    using that by (simp add: opens_story_def)
  with n show ?thesis
    by (auto simp: parse_stories_from_markdown_def)
qed

theorem parser_best_effort_witness:
  "parse_stories_from_markdown (''# Title'' @ [LF] @ ''#### deep heading'' @ [LF] @ ''- a bullet'') 7 = []"
proof -
  have "\<forall>line\<in>set (splitlines (''# Title'' @ [LF] @ ''#### deep heading'' @ [LF] @ ''- a bullet'')).
          \<not> is_story_level_heading (strip line)"
    by code_simp
  then show ?thesis
    using parser_best_effort [of "''# Title'' @ [LF] @ ''#### deep heading'' @ [LF] @ ''- a bullet''" 7]
    by blast
qed

text \<open>
  Claim C10. Let \<open>h\<close> be a line that opens a story, \<open>seg\<close> the lines after it up to the next
  line that opens a story (or the end of the input). Then the parse of the whole input is
  the parse of the lines before \<open>h\<close>, one subtask \<open>t\<close>, and the parse of the remaining
  lines; the acceptance criteria of \<open>t\<close> are the criteria lines recognised in \<open>seg\<close> alone
  (\<^const>\<open>ac_lines_spec\<close>, starting outside an acceptance-criteria subsection). Lines before
  the first line that opens a story give no subtask, so criteria recognised there are in
  no subtask.
\<close>

theorem acceptance_criteria_scoped_to_story:
  assumes "opens_story h"
    and "\<forall>l\<in>set seg. \<not> opens_story l"
    and "rest = [] \<or> opens_story (hd rest)"
  shows "\<exists>t. parse_lines start_index (pre @ h # seg @ rest) =
           parse_lines start_index pre @ [t] @
           parse_lines (start_index + int (length (parse_lines start_index pre)) + 1) rest \<and>
         acceptance_criteria t = ac_lines_spec False seg \<and>
         ((\<forall>l\<in>set pre. \<not> opens_story l) \<longrightarrow> parse_lines start_index pre = [])"
proof -
  let ?s = "start_index + int (length (parse_lines start_index pre))"
  let ?p0 = "step ?s initial_parser h"
  have p0: "?p0 = initial_parser\<lparr>current_heading := heading_of (strip h)\<rparr>"
    using assms(1) by (simp add: step_def opens_story_def Let_def flush_def initial_parser_def)
  have hne: "heading_of (strip h) \<noteq> []"
    using assms(1) by (simp add: opens_story_def heading_nonempty)
  let ?q = "foldl (step ?s) ?p0 seg"
  have q: "subtasks ?q = []" "current_heading ?q \<noteq> []" "current_ac ?q = ac_lines_spec False seg"
    using foldl_step_segment [OF assms(2), of ?s ?p0] hne unfolding p0
    by (simp_all add: initial_parser_def)
  have one: "length (parse_lines ?s (h # seg)) = 1"
    using assms(1,2) by (simp add: length_parse_lines)
  then obtain t where t: "parse_lines ?s (h # seg) = [t]"
    by (cases "parse_lines ?s (h # seg)") auto
  have "subtasks (flush ?s ?q) = [t]" using t by (simp add: parse_lines_def)
  moreover have "map acceptance_criteria (subtasks (flush ?s ?q)) = [current_ac ?q]"
    using q(1,2) by (simp add: flush_def Let_def)
  ultimately have ac: "acceptance_criteria t = ac_lines_spec False seg"
    using q(3) by simp
  have whole: "parse_lines start_index (pre @ h # seg @ rest) =
           parse_lines start_index pre @ [t] @ parse_lines (?s + 1) rest"
  proof (cases rest)
    case Nil
    have "parse_lines (?s + 1) [] = []" by (simp add: parse_lines_def flush_def initial_parser_def)
    then show ?thesis using Nil t parse_lines_split [OF assms(1), of start_index pre seg] by simp
  next
    case (Cons h' rest')
    with assms(3) have h': "opens_story h'" by simp
    have "parse_lines start_index (pre @ h # seg @ rest) =
          parse_lines start_index pre @ parse_lines ?s (h # seg @ rest)"
      using parse_lines_split [OF assms(1), of start_index pre "seg @ rest"] by simp
    moreover have "parse_lines ?s (h # seg @ rest) =
          parse_lines ?s (h # seg) @ parse_lines (?s + int (length (parse_lines ?s (h # seg)))) (h' # rest')"
      using parse_lines_split [OF h', of ?s "h # seg" rest'] Cons by simp
    ultimately show ?thesis using t Cons by simp
  qed
  have "parse_lines start_index pre = []" if "\<forall>l\<in>set pre. \<not> opens_story l"
  proof -
    have "filter opens_story pre = []" using that by simp
    then show ?thesis using length_parse_lines [of start_index pre] by simp
  qed
  with whole ac show ?thesis by blast
qed

theorem acceptance_criteria_scoped_to_story_witness:
  "parse_lines 0 ([''AC: orphan'', ''### Acceptance Criteria'', ''- early''] @ ''## Story'' #
      [''Given a user'', ''- plain bullet''] @ []) =
   [\<lparr>id = ''bmad-001'', description = ''Story'', details = ''- plain bullet'', service = ''all'',
     files_to_modify = [], files_to_create = [], patterns_from = [],
     acceptance_criteria = [''Given a user'']\<rparr>]"
proof -
  let ?pre = "[''AC: orphan'', ''### Acceptance Criteria'', ''- early'']"
  let ?seg = "[''Given a user'', ''- plain bullet'']"
  have a: "opens_story ''## Story''" by code_simp
  have b: "\<forall>l\<in>set ?seg. \<not> opens_story l" by code_simp
  have c: "([]::string list) = [] \<or> opens_story (hd [])" by simp
  have d: "\<forall>l\<in>set ?pre. \<not> opens_story l" by code_simp
  have e: "ac_lines_spec False ?seg = [''Given a user'']" by code_simp
  from acceptance_criteria_scoped_to_story [OF a b c, of 0 ?pre] d e
  obtain t where "parse_lines 0 (?pre @ ''## Story'' # ?seg @ []) = [t]"
    and "acceptance_criteria t = [''Given a user'']"
    by (auto simp: parse_lines_def flush_def initial_parser_def)
  moreover have "parse_lines 0 (?pre @ ''## Story'' # ?seg @ []) =
   [\<lparr>id = ''bmad-001'', description = ''Story'', details = ''- plain bullet'', service = ''all'',
     files_to_modify = [], files_to_create = [], patterns_from = [],
     acceptance_criteria = [''Given a user'']\<rparr>]" by code_simp
  ultimately show ?thesis by simp
qed

section \<open>Properties of the plan builder\<close>

lemma numbered_from_iff:
  "numbered_from start ts \<longleftrightarrow> (\<forall>k<length ts. id (ts ! k) = ''bmad-'' @ format_03d (start + int k + 1))"
  by (auto simp: numbered_from_def list_all_length nth_enumerate_eq)

lemma numbered_from_append:
  "numbered_from start (xs @ ys) \<longleftrightarrow>
   numbered_from start xs \<and> numbered_from (start + int (length xs)) ys"
proof -
  have "(\<forall>k<length xs + length ys. id ((xs @ ys) ! k) = ''bmad-'' @ format_03d (start + int k + 1)) \<longleftrightarrow>
        (\<forall>k<length xs. id (xs ! k) = ''bmad-'' @ format_03d (start + int k + 1)) \<and>
        (\<forall>k<length ys. id (ys ! k) = ''bmad-'' @ format_03d (start + int (length xs) + int k + 1))"
    (is "?L \<longleftrightarrow> ?A \<and> ?B")
  proof
    assume L: ?L
    have ?A
    proof (intro allI impI)
      fix k assume "k < length xs"
      then show "id (xs ! k) = ''bmad-'' @ format_03d (start + int k + 1)"
        using L [rule_format, of k] by (simp add: nth_append)
    qed
    moreover have ?B
    proof (intro allI impI)
      fix k assume "k < length ys"
      then show "id (ys ! k) = ''bmad-'' @ format_03d (start + int (length xs) + int k + 1)"
        using L [rule_format, of "length xs + k"] by (simp add: nth_append add.assoc)
    qed
    ultimately show "?A \<and> ?B" ..
  next
    assume AB: "?A \<and> ?B"
    show ?L
    proof (intro allI impI)
      fix k assume k: "k < length xs + length ys"
      show "id ((xs @ ys) ! k) = ''bmad-'' @ format_03d (start + int k + 1)"
      proof (cases "k < length xs")
        case True
        then show ?thesis using AB by (simp add: nth_append)
      next
        case False
        then have "k - length xs < length ys" using k by simp
        then have "id (ys ! (k - length xs)) =
            ''bmad-'' @ format_03d (start + int (length xs) + int (k - length xs) + 1)"
          using AB by blast
        moreover have "start + int (length xs) + int (k - length xs) = start + int k"
          using False by simp
        ultimately show ?thesis using False by (simp add: nth_append)
      qed
    qed
  qed
  then show ?thesis by (simp add: numbered_from_iff)
qed

lemma flush_numbered:
  "numbered_from start (subtasks p) \<Longrightarrow> numbered_from start (subtasks (flush start p))"
  by (simp add: flush_def Let_def numbered_from_append) (simp add: numbered_from_iff)

lemma step_numbered:
  "numbered_from start (subtasks p) \<Longrightarrow> numbered_from start (subtasks (step start p line))"
  using flush_numbered [of start p] by (simp add: step_def Let_def)

lemma foldl_step_numbered:
  "numbered_from start (subtasks p) \<Longrightarrow> numbered_from start (subtasks (foldl (step start) p ls))"
  by (induction ls arbitrary: p) (simp_all add: step_numbered)

lemma parse_numbered: "numbered_from start (parse_stories_from_markdown content start)"
proof -
  have "numbered_from start (subtasks initial_parser)"
    by (simp add: initial_parser_def numbered_from_iff)
  then show ?thesis
    unfolding parse_stories_from_markdown_def parse_lines_def
    by (intro flush_numbered foldl_step_numbered)
qed

lemma parse_documents_numbered: "numbered_from start (parse_documents start docs)"
proof (induction docs arbitrary: start)
  case Nil
  show ?case by (simp add: numbered_from_iff)
next
  case (Cons d ds)
  show ?case
    by (simp add: Let_def numbered_from_append parse_numbered Cons.IH)
qed

lemma parse_empty: "parse_stories_from_markdown [] start = []"
  by (simp add: parse_stories_from_markdown_def parse_lines_def splitlines_def flush_def
      initial_parser_def)

lemma story_files_documents:
  assumes "story_files fs files (ts, i) = Inr (ts', i')"
  shows "ts' = ts @ parse_documents i
            (map (text_of fs) (filter (\<lambda>f. name f \<notin> set (map snd ARTIFACT_FILES)) files)) \<and>
         (\<forall>f\<in>set (filter (\<lambda>f. name f \<notin> set (map snd ARTIFACT_FILES)) files).
            read_text fs f = Inr (text_of fs f))"
  using assms
proof (induction files arbitrary: ts i)
  case Nil
  then show ?case by simp
next
  case (Cons f files)
  show ?case
  proof (cases "name f \<in> set (map snd ARTIFACT_FILES)")
    case True
    with Cons.prems have "story_files fs files (ts, i) = Inr (ts', i')" by simp
    from Cons.IH [OF this] True show ?thesis by simp
  next
    case False
    with Cons.prems obtain content where r: "read_text fs f = Inr content"
      and rest: "story_files fs files
          (ts @ parse_stories_from_markdown content i,
           i + int (length (parse_stories_from_markdown content i))) = Inr (ts', i')"
      by (auto simp: Let_def split: sum.splits)
    have t: "text_of fs f = content" using r by (simp add: text_of_def)
    from Cons.IH [OF rest] False r t show ?thesis by (simp add: Let_def)
  qed
qed

lemma plan_structure:
  assumes "stories_to_implementation_plan fs now dumps spec_dir = Inr (fs', plan)"
  shows "\<exists>stories_content epics_content.
           load_artifact fs spec_dir ''stories'' = Inr stories_content \<and>
           load_artifact fs spec_dir ''epics'' = Inr epics_content \<and>
           plan_subtasks plan =
             parse_documents 0 (source_content stories_content epics_content #
                                map (text_of fs) (extra_story_files fs spec_dir))"
proof -
  let ?stories_dir = "slash (slash spec_dir BMAD_ARTIFACTS_SUBDIR) ''stories''"
  from assms obtain st where st: "load_artifact fs spec_dir ''stories'' = Inr st"
    by (cases "load_artifact fs spec_dir ''stories''")
       (simp_all add: stories_to_implementation_plan_def)
  from assms st obtain ep where ep: "load_artifact fs spec_dir ''epics'' = Inr ep"
    by (cases "load_artifact fs spec_dir ''epics''")
       (simp_all add: stories_to_implementation_plan_def)
  let ?src = "source_content st ep"
  let ?first = "parse_stories_from_markdown ?src 0"
  let ?st0 = "(?first, int (length ?first))"
  have st0: "(if ?src \<noteq> [] then (let tasks = parse_stories_from_markdown ?src 0
                          in (tasks, 0 + int (length tasks))) else ([], 0)) = ?st0"
    by (simp add: Let_def parse_empty)
  define loop where "loop = (if is_dir fs ?stories_dir
               then story_files fs (sort_key parts (glob fs ?stories_dir ''*.md'')) ?st0
               else Inr ?st0)"
  define mk where "mk = (\<lambda>tasks. \<lparr>plan_subtasks = tasks,
       plan_metadata = \<lparr>source = ''bmad'', generated_at = now, spec_dir_str = path_str spec_dir\<rparr>\<rparr>)"
  have eq: "stories_to_implementation_plan fs now dumps spec_dir =
      (case loop of
         Inl e \<Rightarrow> Inl e
       | Inr (tasks, task_index) \<Rightarrow>
           (case write_text fs (slash spec_dir ''implementation_plan.json'') (dumps (mk tasks)) of
              Inl e \<Rightarrow> Inl e
            | Inr fs' \<Rightarrow> Inr (fs', mk tasks)))"
  proof (cases "source_content st ep = []")
    case True
    then show ?thesis
      unfolding stories_to_implementation_plan_def Let_def st ep loop_def mk_def
      by (simp add: parse_empty)
  next
    case False
    then show ?thesis
      unfolding stories_to_implementation_plan_def Let_def st ep loop_def mk_def
      by simp
  qed
  obtain tasks task_index where loop: "loop = Inr (tasks, task_index)"
    using assms unfolding eq by (cases loop) auto
  have plan: "plan_subtasks plan = tasks"
    using assms unfolding eq loop
    by (cases "write_text fs (slash spec_dir ''implementation_plan.json'') (dumps (mk tasks))")
       (auto simp: mk_def)
  have "tasks = ?first @ parse_documents (int (length ?first))
                   (map (text_of fs) (extra_story_files fs spec_dir))"
  proof (cases "is_dir fs ?stories_dir")
    case True
    with loop have "story_files fs (sort_key parts (glob fs ?stories_dir ''*.md'')) ?st0 =
        Inr (tasks, task_index)" by (simp add: loop_def)
    from story_files_documents [OF this] True show ?thesis
      by (simp add: extra_story_files_def Let_def)
  next
    case False
    with loop show ?thesis by (simp add: extra_story_files_def Let_def loop_def)
  qed
  with plan st ep show ?thesis by (simp add: Let_def)
qed

text \<open>
  Claim C7. In every plan that \<^const>\<open>stories_to_implementation_plan\<close> returns, the subtasks
  are those of the consolidated source followed by those of each further \<open>*.md\<close> file of the
  stories directory, in sorted order and without the names of the consolidated artifacts,
  each document parsed from the index where the one before it stopped
  (\<^const>\<open>parse_documents\<close> from 0); and the subtask at position \<open>k\<close> (from 0) has the id
  \<open>bmad-\<close> followed by \<open>k + 1\<close> in decimal, zero-padded to three digits. The example of the
  claim (a consolidated \<open>stories.md\<close> with two stories and \<open>extra.md\<close> with one) is the
  state \<^const>\<open>two_sources\<close> of the theorem after this one.
\<close>

theorem plan_ids_sequential:
  assumes "stories_to_implementation_plan fs now dumps spec_dir = Inr (fs', plan)"
  shows "(\<exists>stories_content epics_content.
            load_artifact fs spec_dir ''stories'' = Inr stories_content \<and>
            load_artifact fs spec_dir ''epics'' = Inr epics_content \<and>
            plan_subtasks plan =
              parse_documents 0 (source_content stories_content epics_content #
                                 map (text_of fs) (extra_story_files fs spec_dir))) \<and>
         (\<forall>k<length (plan_subtasks plan).
            id (plan_subtasks plan ! k) = ''bmad-'' @ format_03d (int k + 1))"
proof -
  from plan_structure [OF assms] obtain st ep where
    s: "load_artifact fs spec_dir ''stories'' = Inr st"
       "load_artifact fs spec_dir ''epics'' = Inr ep"
       "plan_subtasks plan =
          parse_documents 0 (source_content st ep # map (text_of fs) (extra_story_files fs spec_dir))"
    by blast
  have "numbered_from 0 (plan_subtasks plan)"
    unfolding s(3) by (rule parse_documents_numbered)
  then have "\<forall>k<length (plan_subtasks plan).
            id (plan_subtasks plan ! k) = ''bmad-'' @ format_03d (int k + 1)"
    by (simp add: numbered_from_iff)
  with s show ?thesis by blast
qed

lemma two_sources_plan:
  "(case stories_to_implementation_plan two_sources ''2026-01-01T00:00:00'' (\<lambda>plan. ''{}'') spec_root of
      Inl e \<Rightarrow> None
    | Inr (fs', plan) \<Rightarrow> Some (map description (plan_subtasks plan))) =
   Some [''Story One'', ''Story Two'', ''Extra'']"
  by code_simp

theorem plan_ids_sequential_witness:
  "(case stories_to_implementation_plan two_sources ''2026-01-01T00:00:00'' (\<lambda>plan. ''{}'') spec_root of
      Inl e \<Rightarrow> None
    | Inr (fs', plan) \<Rightarrow> Some (map (\<lambda>t. (id t, description t)) (plan_subtasks plan))) =
   Some [(''bmad-001'', ''Story One''), (''bmad-002'', ''Story Two''), (''bmad-003'', ''Extra'')]"
proof -
  let ?r = "stories_to_implementation_plan two_sources ''2026-01-01T00:00:00'' (\<lambda>plan. ''{}'') spec_root"
  from two_sources_plan obtain fs' plan where r: "?r = Inr (fs', plan)"
    and d: "map description (plan_subtasks plan) = [''Story One'', ''Story Two'', ''Extra'']"
    by (auto split: sum.splits)
  from d have n: "length (plan_subtasks plan) = 3" by (metis length_map length_Cons list.size(3) numeral_3_eq_3)
  from plan_ids_sequential [OF r]
  have ids: "\<forall>k<length (plan_subtasks plan).
            id (plan_subtasks plan ! k) = ''bmad-'' @ format_03d (int k + 1)" by blast
  have f: "format_03d 1 = ''001''" "format_03d 2 = ''002''" "format_03d 3 = ''003''"
    by code_simp+
  from n obtain a b c where abc: "plan_subtasks plan = [a, b, c]"
    by (auto simp: length_Suc_conv numeral_3_eq_3)
  from ids abc f have "id a = ''bmad-001''" "id b = ''bmad-002''" "id c = ''bmad-003''"
    using ids [rule_format, of 0] ids [rule_format, of 1] ids [rule_format, of 2]
    by simp_all
  with abc d r show ?thesis by simp
qed

lemma source_content_cases:
  "source_content stories_content epics_content =
     (case stories_content of
        Some s \<Rightarrow> if s \<noteq> [] then s else (case epics_content of Some e \<Rightarrow> e | None \<Rightarrow> [])
      | None \<Rightarrow> (case epics_content of Some e \<Rightarrow> e | None \<Rightarrow> []))"
  by (auto simp: source_content_def truthy_def split: option.splits)

text \<open>
  Claim C2, as stated, fails: in the state \<^const>\<open>empty_stories\<close> the stories artifact is
  present (\<open>load_artifact\<close> returns the empty string, not \<open>None\<close>), and the plan holds the
  subtask of the epics artifact, which therefore was the source.
\<close>

theorem epics_used_when_stories_empty:
  "load_artifact empty_stories spec_root ''stories'' = Inr (Some []) \<and>
   (case stories_to_implementation_plan empty_stories ''2026-01-01T00:00:00'' (\<lambda>plan. ''{}'') spec_root of
      Inl e \<Rightarrow> None
    | Inr (fs', plan) \<Rightarrow> Some (map description (plan_subtasks plan))) = Some [''Epic One'']"
  by code_simp

text \<open>
  Claim C2, amended. In every plan that \<^const>\<open>stories_to_implementation_plan\<close> returns, the
  consolidated source text is the content of the stories artifact when that artifact is
  present and its content is not the empty string; otherwise it is the content of the epics
  artifact when that is present; otherwise it is empty. The subtasks of that text come first
  in the plan.
\<close>

theorem source_selection:
  assumes "stories_to_implementation_plan fs now dumps spec_dir = Inr (fs', plan)"
  shows "\<exists>stories_content epics_content.
           load_artifact fs spec_dir ''stories'' = Inr stories_content \<and>
           load_artifact fs spec_dir ''epics'' = Inr epics_content \<and>
           plan_subtasks plan =
             parse_documents 0
               ((case stories_content of
                   Some s \<Rightarrow> if s \<noteq> [] then s
                             else (case epics_content of Some e \<Rightarrow> e | None \<Rightarrow> [])
                 | None \<Rightarrow> (case epics_content of Some e \<Rightarrow> e | None \<Rightarrow> [])) #
                map (text_of fs) (extra_story_files fs spec_dir))"
  using plan_structure [OF assms] by (simp add: source_content_cases)

theorem source_selection_witness:
  "\<exists>fs' plan. stories_to_implementation_plan two_sources ''2026-01-01T00:00:00'' (\<lambda>plan. ''{}'') spec_root =
       Inr (fs', plan) \<and>
     plan_subtasks plan =
       parse_documents 0
         [''## Story One'' @ [LF] @ ''Body A'' @ [LF] @ ''## Story Two'' @ [LF] @ ''Body B'' @ [LF],
          ''## Extra'' @ [LF] @ ''Body C'' @ [LF]]"
proof -
  let ?r = "stories_to_implementation_plan two_sources ''2026-01-01T00:00:00'' (\<lambda>plan. ''{}'') spec_root"
  from two_sources_plan obtain fs' plan where r: "?r = Inr (fs', plan)"
    by (auto split: sum.splits)
  have st: "load_artifact two_sources spec_root ''stories'' =
      Inr (Some (''## Story One'' @ [LF] @ ''Body A'' @ [LF] @ ''## Story Two'' @ [LF] @ ''Body B'' @ [LF]))"
    by code_simp
  have ex: "map (text_of two_sources) (extra_story_files two_sources spec_root) =
      [''## Extra'' @ [LF] @ ''Body C'' @ [LF]]"
    by code_simp
  have ne: "''## Story One'' @ [LF] @ ''Body A'' @ [LF] @ ''## Story Two'' @ [LF] @ ''Body B'' @ [LF] \<noteq> []"
    by simp
  from source_selection [OF r] st ex ne
  have "plan_subtasks plan =
       parse_documents 0
         [''## Story One'' @ [LF] @ ''Body A'' @ [LF] @ ''## Story Two'' @ [LF] @ ''Body B'' @ [LF],
          ''## Extra'' @ [LF] @ ''Body C'' @ [LF]]"
    by auto
  with r show ?thesis by blast
qed

section \<open>Properties of the artifact store\<close>














section \<open>Properties of the workflow loader\<close>











lemma explicit_ref_other_key:
  assumes "k \<notin> PStr ` set keys"
  shows "explicit_ref fs workflow_dir (data(k \<mapsto> v)) keys = explicit_ref fs workflow_dir data keys"
  using assms
proof (induction keys)
  case Nil
  show ?case by simp
next
  case (Cons key keys)
  then have ne: "PStr key \<noteq> k" and rest: "k \<notin> PStr ` set keys" by auto
  have l: "(data(k \<mapsto> v)) (PStr key) = data (PStr key)" using ne by simp
  show ?case by (simp only: explicit_ref.simps l Cons.IH [OF rest])
qed

lemma resolve_ref_other_key:
  assumes "k \<notin> PStr ` set keys"
  shows "resolve_ref fs workflow_dir (data(k \<mapsto> v)) keys = resolve_ref fs workflow_dir data keys"
  by (simp add: resolve_ref_def explicit_ref_other_key [OF assms])

lemma update_items_eq: "update_items d kvs = d ++ map_of (rev kvs)"
proof (induction d kvs rule: update_items.induct)
  case (1 d)
  show ?case by simp
next
  case (2 d k v kvs)
  have e: "d(k \<mapsto> v) ++ map_of (rev kvs) = d ++ ([k \<mapsto> v] ++ map_of (rev kvs))"
  proof (rule ext)
    fix x
    show "(d(k \<mapsto> v) ++ map_of (rev kvs)) x = (d ++ ([k \<mapsto> v] ++ map_of (rev kvs))) x"
      by (simp add: map_add_def split: option.splits)
  qed
  have "update_items d ((k, v) # kvs) = update_items (d(k \<mapsto> v)) kvs"
    by (simp add: fun_upd_def)
  also have "\<dots> = d(k \<mapsto> v) ++ map_of (rev kvs)"
    using "2.IH" by (simp add: fun_upd_def)
  also note e
  finally show ?case by simp
qed

lemma dict_update_mapping:
  assumes "distinct (map fst kvs)" and "(k, v) \<in> set kvs"
  shows "dict_update d (if py_truthy (PDict kvs) then PDict kvs else PDict []) = Inr d' \<Longrightarrow>
         d' k = Some v"
proof -
  assume u: "dict_update d (if py_truthy (PDict kvs) then PDict kvs else PDict []) = Inr d'"
  have ne: "kvs \<noteq> []" using assms(2) by auto
  have "map_of (rev kvs) k = Some v"
    using assms by (intro map_of_is_SomeI) (simp_all add: rev_map [symmetric] distinct_rev)
  with u ne show ?thesis by (auto simp: update_items_eq map_add_find_right)
qed





text \<open>
  Claim C9. In every result that \<^const>\<open>load_workflow\<close> returns, the keys
  \<open>instructions_path\<close>, \<open>checklist_path\<close> and \<open>template_path\<close> hold what
  \<^const>\<open>resolve_ref\<close> computes in the real workflow directory from the loaded definition
  (a path, or \<open>None\<close>), whatever the definition holds under these three keys; every other
  key holds what the loaded definition holds; and when \<open>workflow.yaml\<close> is a mapping
  with a key \<open>workflow_dir\<close>, the result holds the value of the mapping under that key
  instead of the directory.
\<close>

theorem resolved_paths_in_result:
  assumes "load_workflow fs safe_load pkg_dir phase workflow_name workflows_dir = Inr result"
  shows "\<exists>workflow_dir loaded.
           workflow_directory fs pkg_dir phase workflow_name workflows_dir = Inr workflow_dir \<and>
           load_definition fs safe_load workflow_dir = Inr loaded \<and>
           result (PStr ''instructions_path'') =
             Some (path_or_none (resolve_ref fs workflow_dir loaded [''instructions''])) \<and>
           result (PStr ''checklist_path'') =
             Some (path_or_none (resolve_ref fs workflow_dir loaded [''validation'', ''checklist''])) \<and>
           result (PStr ''template_path'') =
             Some (path_or_none (resolve_ref fs workflow_dir loaded [''template''])) \<and>
           (\<forall>k. k \<notin> {PStr ''instructions_path'', PStr ''checklist_path'', PStr ''template_path''} \<longrightarrow>
                result k = loaded k) \<and>
           (\<forall>raw kvs v.
              exists fs (slash workflow_dir ''workflow.yaml'') \<and>
              read_text fs (slash workflow_dir ''workflow.yaml'') = Inr raw \<and>
              safe_load raw = Inr (PDict kvs) \<and> distinct (map fst kvs) \<and>
              (PStr ''workflow_dir'', v) \<in> set kvs \<longrightarrow>
              result (PStr ''workflow_dir'') = Some v)"
proof -
  from assms obtain workflow_dir where
    wd: "workflow_directory fs pkg_dir phase workflow_name workflows_dir = Inr workflow_dir"
    by (cases "workflow_directory fs pkg_dir phase workflow_name workflows_dir")
       (simp_all add: load_workflow_def)
  from assms wd obtain loaded where ld: "load_definition fs safe_load workflow_dir = Inr loaded"
    by (cases "load_definition fs safe_load workflow_dir") (simp_all add: load_workflow_def)
  let ?i = "path_or_none (resolve_ref fs workflow_dir loaded [''instructions''])"
  let ?r1 = "loaded(PStr ''instructions_path'' \<mapsto> ?i)"
  let ?c = "path_or_none (resolve_ref fs workflow_dir ?r1 [''validation'', ''checklist''])"
  let ?r2 = "?r1(PStr ''checklist_path'' \<mapsto> ?c)"
  let ?t = "path_or_none (resolve_ref fs workflow_dir ?r2 [''template''])"
  have res: "result = ?r2(PStr ''template_path'' \<mapsto> ?t)"
    using assms wd ld by (simp add: load_workflow_def Let_def)
  have c: "resolve_ref fs workflow_dir ?r1 [''validation'', ''checklist''] =
           resolve_ref fs workflow_dir loaded [''validation'', ''checklist'']"
    by (rule resolve_ref_other_key) auto
  have "resolve_ref fs workflow_dir ?r2 [''template''] = resolve_ref fs workflow_dir ?r1 [''template'']"
    by (rule resolve_ref_other_key) auto
  also have "\<dots> = resolve_ref fs workflow_dir loaded [''template'']"
    by (rule resolve_ref_other_key) auto
  finally have t: "resolve_ref fs workflow_dir ?r2 [''template''] =
                   resolve_ref fs workflow_dir loaded [''template'']" .
  have i': "result (PStr ''instructions_path'') = Some ?i" unfolding res by simp
  have c': "result (PStr ''checklist_path'') =
        Some (path_or_none (resolve_ref fs workflow_dir loaded [''validation'', ''checklist'']))"
    unfolding res c [symmetric] by simp
  have t': "result (PStr ''template_path'') =
        Some (path_or_none (resolve_ref fs workflow_dir loaded [''template'']))"
    unfolding t [symmetric] res by simp
  have frame: "\<forall>k. k \<notin> {PStr ''instructions_path'', PStr ''checklist_path'', PStr ''template_path''} \<longrightarrow>
                result k = loaded k"
    unfolding res by simp
  have yaml: "\<forall>raw kvs v.
              exists fs (slash workflow_dir ''workflow.yaml'') \<and>
              read_text fs (slash workflow_dir ''workflow.yaml'') = Inr raw \<and>
              safe_load raw = Inr (PDict kvs) \<and> distinct (map fst kvs) \<and>
              (PStr ''workflow_dir'', v) \<in> set kvs \<longrightarrow>
              result (PStr ''workflow_dir'') = Some v"
  proof (intro allI impI)
    fix raw kvs v
    assume h: "exists fs (slash workflow_dir ''workflow.yaml'') \<and>
              read_text fs (slash workflow_dir ''workflow.yaml'') = Inr raw \<and>
              safe_load raw = Inr (PDict kvs) \<and> distinct (map fst kvs) \<and>
              (PStr ''workflow_dir'', v) \<in> set kvs"
    then have "dict_update [PStr ''workflow_dir'' \<mapsto> PPath workflow_dir]
                 (if py_truthy (PDict kvs) then PDict kvs else PDict []) = Inr loaded"
      using ld by (simp add: load_definition_def Let_def)
    from dict_update_mapping [OF _ _ this] h have "loaded (PStr ''workflow_dir'') = Some v" by blast
    with frame show "result (PStr ''workflow_dir'') = Some v" by simp
  qed
  show ?thesis
    by (intro exI conjI) (rule wd ld i' c' t' frame yaml)+
qed





lemma yaml_workflow_loaded:
  "(case load_workflow yaml_workflow parsed_yaml (Path ''/'' [''pkg'']) ''research'' None
          (Some (Path ''/'' [''wf''])) of
      Inl e \<Rightarrow> None
    | Inr r \<Rightarrow> Some (map r [PStr ''instructions_path'', PStr ''checklist_path'', PStr ''template_path''])) =
   Some [Some (PPath (Path ''/'' [''wf'', ''1-analysis'', ''research'', ''b-instructions.md''])),
         Some PNone, Some PNone]"
  by code_simp

theorem resolved_paths_in_result_witness:
  "\<exists>result. load_workflow yaml_workflow parsed_yaml (Path ''/'' [''pkg'']) ''research'' None
               (Some (Path ''/'' [''wf''])) = Inr result \<and>
     result (PStr ''workflow_dir'') = Some (PStr ''elsewhere'') \<and>
     result (PStr ''instructions_path'') =
       Some (PPath (Path ''/'' [''wf'', ''1-analysis'', ''research'', ''b-instructions.md'']))"
proof -
  let ?l = "load_workflow yaml_workflow parsed_yaml (Path ''/'' [''pkg'']) ''research'' None
               (Some (Path ''/'' [''wf'']))"
  from yaml_workflow_loaded obtain result where r: "?l = Inr result"
    and i: "result (PStr ''instructions_path'') =
       Some (PPath (Path ''/'' [''wf'', ''1-analysis'', ''research'', ''b-instructions.md'']))"
    by (auto split: sum.splits)
  have d: "workflow_directory yaml_workflow (Path ''/'' [''pkg'']) ''research'' None
             (Some (Path ''/'' [''wf''])) = Inr research_dir"
    by code_simp
  have e: "exists yaml_workflow (slash research_dir ''workflow.yaml'')" by code_simp
  have t: "read_text yaml_workflow (slash research_dir ''workflow.yaml'') = Inr ''name: research''"
    by code_simp
  from resolved_paths_in_result [OF r] obtain workflow_dir loaded where
    w: "workflow_directory yaml_workflow (Path ''/'' [''pkg'']) ''research'' None
             (Some (Path ''/'' [''wf''])) = Inr workflow_dir" and
    y0: "\<forall>raw kvs v.
              exists yaml_workflow (slash workflow_dir ''workflow.yaml'') \<and>
              read_text yaml_workflow (slash workflow_dir ''workflow.yaml'') = Inr raw \<and>
              parsed_yaml raw = Inr (PDict kvs) \<and> distinct (map fst kvs) \<and>
              (PStr ''workflow_dir'', v) \<in> set kvs \<longrightarrow>
              result (PStr ''workflow_dir'') = Some v"
    by (elim exE conjE) (rule that, assumption+)
  from w d have "workflow_dir = research_dir" by simp
  with y0 have y: "\<forall>raw kvs v.
              exists yaml_workflow (slash research_dir ''workflow.yaml'') \<and>
              read_text yaml_workflow (slash research_dir ''workflow.yaml'') = Inr raw \<and>
              parsed_yaml raw = Inr (PDict kvs) \<and> distinct (map fst kvs) \<and>
              (PStr ''workflow_dir'', v) \<in> set kvs \<longrightarrow>
              result (PStr ''workflow_dir'') = Some v"
    by simp
  have "result (PStr ''workflow_dir'') = Some (PStr ''elsewhere'')"
    using y [rule_format, of "''name: research''"
        "[(PStr ''workflow_dir'', PStr ''elsewhere''), (PStr ''instructions_path'', PStr ''mine'')]"
        "PStr ''elsewhere''"] e t
    by (simp add: parsed_yaml_def)
  with r i show ?thesis by blast
qed

end
